theory Spec2Isabelle
  imports Main "HOL-Library.Sublist"
begin

section \<open>Text\<close>

text \<open>
  A Python \<open>str\<close> is a sequence of code points. The development covers the code points
  below 256, one \<open>char\<close> each, read through \<open>ord\<close>. The three tables below are those of
  \<open>str.isspace\<close> (also the class \<open>\s\<close> of \<open>re\<close>), \<open>str.isalnum\<close> (the class \<open>\w\<close> of
  \<open>re\<close> is \<open>isalnum\<close> or the underscore) and \<open>str.lower\<close> on that range.
\<close>

definition ord :: "char \<Rightarrow> nat" where
  "ord c = of_char c"

definition isspace :: "char \<Rightarrow> bool" where
  "isspace c =
     (let n = ord c
      in (9 \<le> n \<and> n \<le> 13) \<or> (28 \<le> n \<and> n \<le> 32) \<or> n = 133 \<or> n = 160)"

definition isalnum :: "char \<Rightarrow> bool" where
  "isalnum c =
     (let n = ord c
      in (48 \<le> n \<and> n \<le> 57) \<or> (65 \<le> n \<and> n \<le> 90) \<or> (97 \<le> n \<and> n \<le> 122)
         \<or> n = 170 \<or> n = 178 \<or> n = 179 \<or> n = 181 \<or> n = 185 \<or> n = 186
         \<or> (188 \<le> n \<and> n \<le> 190) \<or> (192 \<le> n \<and> n \<le> 214)
         \<or> (216 \<le> n \<and> n \<le> 246) \<or> (248 \<le> n \<and> n \<le> 255))"

text \<open>The class \<open>\w\<close> of a \<open>str\<close> pattern, and its complement \<open>\W\<close>.\<close>

definition re_word :: "char \<Rightarrow> bool" where
  "re_word c = (isalnum c \<or> c = CHR ''_'')"

definition re_nonword :: "char \<Rightarrow> bool" where
  "re_nonword c = (\<not> re_word c)"

definition lower_char :: "char \<Rightarrow> char" where
  "lower_char c =
     (let n = ord c
      in if (65 \<le> n \<and> n \<le> 90) \<or> (192 \<le> n \<and> n \<le> 214) \<or> (216 \<le> n \<and> n \<le> 222)
         then char_of (n + 32) else c)"

text \<open>\<open>s.lower()\<close>\<close>

definition lower :: "string \<Rightarrow> string" where
  "lower s = map lower_char s"

text \<open>\<open>s.strip()\<close>: the leading, then the trailing whitespace is cut off.\<close>

definition strip :: "string \<Rightarrow> string" where
  "strip s = rev (dropWhile isspace (rev (dropWhile isspace s)))"

text \<open>
  \<open>re.sub(r"[cls]+", repl, s)\<close> for a character class \<open>cls\<close>: scanning from the left, a
  character outside the class is copied; at a character of the class the match takes the
  whole run of class characters (the \<open>+\<close> is greedy) and the replacement is written once.
\<close>

function re_sub_plus :: "('a \<Rightarrow> bool) \<Rightarrow> 'a list \<Rightarrow> 'a list \<Rightarrow> 'a list" where
  "re_sub_plus cls repl [] = []"
| "re_sub_plus cls repl (c # cs) =
     (if cls c then repl @ re_sub_plus cls repl (dropWhile cls cs)
      else c # re_sub_plus cls repl cs)"
  by pat_completeness auto
termination
  by (relation "measure (\<lambda>(cls, repl, s). length s)")
     (auto simp: length_dropWhile_le less_Suc_eq_le)

text \<open>
  \<open>_normalize_text\<close>:
  \<^verbatim>\<open>
  s = s.lower().strip()
  s = re.sub(r"[\W_]+", " ", s)
  s = re.sub(r"\s+", " ", s).strip()
  \<close>
\<close>

definition normalize_text :: "string \<Rightarrow> string" where
  "normalize_text s0 =
     (let s1 = strip (lower s0);
          s2 = re_sub_plus (\<lambda>c. re_nonword c \<or> c = CHR ''_'') '' '' s1;
          s3 = strip (re_sub_plus isspace '' '' s2)
      in s3)"

section \<open>Text over all code points\<close>

text \<open>
  A \<open>str\<close> over any code points is the list of their numbers; the space is 32 and the
  underscore is 95. The tables of the interpreter are parameters: \<open>str_lower\<close> is
  \<open>s.lower()\<close> on a whole text, so it may change the length of a text and may depend on the
  neighbours of a character; \<open>str_isspace\<close> is \<open>str.isspace\<close>, which is the class \<open>\s\<close> of a
  \<open>str\<close> pattern; \<open>str_isalnum\<close> is \<open>str.isalnum\<close>, and the class \<open>\w\<close> is \<open>str_isalnum\<close> or the
  underscore. The pipeline is that of \<open>_normalize_text\<close> above.
\<close>

definition strip_cp :: "(nat \<Rightarrow> bool) \<Rightarrow> nat list \<Rightarrow> nat list" where
  "strip_cp str_isspace s = rev (dropWhile str_isspace (rev (dropWhile str_isspace s)))"

definition normalize_text_cp ::
  "(nat list \<Rightarrow> nat list) \<Rightarrow> (nat \<Rightarrow> bool) \<Rightarrow> (nat \<Rightarrow> bool) \<Rightarrow> nat list \<Rightarrow> nat list" where
  "normalize_text_cp str_lower str_isspace str_isalnum s0 =
     (let s1 = strip_cp str_isspace (str_lower s0);
          s2 = re_sub_plus (\<lambda>c. \<not> (str_isalnum c \<or> c = 95) \<or> c = 95) [32] s1;
          s3 = strip_cp str_isspace (re_sub_plus str_isspace [32] s2)
      in s3)"

section \<open>Grading\<close>

datatype py_exception = IndexError | JSONDecodeError | RecursionError | RuntimeError | APIError

text \<open>\<open>xs[i]\<close> for an index that is not negative.\<close>

definition py_getitem :: "'a list \<Rightarrow> nat \<Rightarrow> py_exception + 'a" where
  "py_getitem xs i = (if i < length xs then Inr (xs ! i) else Inl IndexError)"

text \<open>\<open>sub in s\<close> on two \<open>str\<close>: \<open>sub\<close> starts at some position of \<open>s\<close>.\<close>

fun py_in :: "string \<Rightarrow> string \<Rightarrow> bool" where
  "py_in sub [] = (sub = [])"
| "py_in sub (c # cs) = (prefix sub (c # cs) \<or> py_in sub cs)"

text \<open>
  \<^verbatim>\<open>is_correct = user == correct or (user and user in correct) or (correct and correct in user)\<close>,
  read as a truth value: a \<open>str\<close> is true when it is not empty.
\<close>

definition is_correct :: "string \<Rightarrow> string \<Rightarrow> bool" where
  "is_correct user correct =
     (user = correct \<or> (user \<noteq> [] \<and> py_in user correct)
      \<or> (correct \<noteq> [] \<and> py_in correct user))"

text \<open>
  The body of \<open>for i in range(total)\<close>, run over the indices still to visit, on the pair
  \<open>(score, feedback)\<close>.
\<close>

fun check_loop ::
  "string list \<Rightarrow> string list \<Rightarrow> nat list \<Rightarrow> int \<times> string list
     \<Rightarrow> py_exception + int \<times> string list" where
  "check_loop user_answers correct_answers [] (score, feedback) = Inr (score, feedback)"
| "check_loop user_answers correct_answers (i # rest) (score, feedback) =
     (case py_getitem user_answers i of
        Inl e \<Rightarrow> Inl e
      | Inr ua \<Rightarrow>
          (case py_getitem correct_answers i of
             Inl e \<Rightarrow> Inl e
           | Inr ca \<Rightarrow>
               (let user = normalize_text ua;
                    correct = normalize_text ca
                in if is_correct user correct
                   then check_loop user_answers correct_answers rest
                          (score + 1, feedback @ [''Correct!''])
                   else check_loop user_answers correct_answers rest
                          (score, feedback @ [''Not quite. Expected: '' @ ca]))))"

definition check_answers ::
  "string list \<Rightarrow> string list \<Rightarrow> py_exception + int \<times> string list" where
  "check_answers user_answers correct_answers =
     (let total = min (length user_answers) (length correct_answers)
      in check_loop user_answers correct_answers [0..<total] (0, []))"

section \<open>Quiz parsing\<close>

text \<open>
  The values \<open>json.loads\<close> returns: \<open>None\<close>, a \<open>bool\<close>, a number (\<open>int\<close> or \<open>float\<close>, kept
  abstract as \<open>'n\<close>), a \<open>str\<close>, a \<open>list\<close>, or a \<open>dict\<close> with \<open>str\<close> keys. A \<open>dict\<close> is the list
  of its entries, one for each key, looked up with \<open>map_of\<close>.
\<close>

datatype 'n json =
    JNull
  | JBool bool
  | JNum 'n
  | JStr string
  | JList "'n json list"
  | JDict "(string \<times> 'n json) list"

record quiz_item =
  question :: string
  answer :: string

text \<open>\<open>d.get(key, default)\<close>\<close>

definition dict_get :: "(string \<times> 'v) list \<Rightarrow> string \<Rightarrow> 'v \<Rightarrow> 'v" where
  "dict_get d key dflt = (case map_of d key of None \<Rightarrow> dflt | Some v \<Rightarrow> v)"

text \<open>
  \<open>str(v)\<close>: a \<open>str\<close> is returned as it is; the text of any other value is the one the
  interpreter prints, taken as the parameter \<open>repr\<close>.
\<close>

definition py_str :: "('n json \<Rightarrow> string) \<Rightarrow> 'n json \<Rightarrow> string" where
  "py_str repr v = (case v of JStr s \<Rightarrow> s | _ \<Rightarrow> repr v)"

text \<open>The loop \<open>for item in items\<close> on the list \<open>normalized\<close>.\<close>

fun parse_items ::
  "('n json \<Rightarrow> string) \<Rightarrow> 'n json list \<Rightarrow> quiz_item list \<Rightarrow> quiz_item list" where
  "parse_items repr [] normalized = normalized"
| "parse_items repr (item # items) normalized =
     (case item of
        JDict d \<Rightarrow>
          (let q = strip (py_str repr (dict_get d ''question'' (JStr [])));
               a = strip (py_str repr (dict_get d ''answer'' (JStr [])))
           in if q \<noteq> [] \<and> a \<noteq> []
              then parse_items repr items (normalized @ [\<lparr>question = q, answer = a\<rparr>])
              else parse_items repr items normalized)
      | _ \<Rightarrow> parse_items repr items normalized)"

text \<open>
  The body of the \<open>try\<close> block. \<open>json.loads\<close> is the parameter \<open>loads\<close>: it returns the
  decoded value or the exception it raises.
\<close>

definition parse_quiz_body ::
  "(string \<Rightarrow> py_exception + 'n json) \<Rightarrow> ('n json \<Rightarrow> string) \<Rightarrow> string
     \<Rightarrow> py_exception + quiz_item list" where
  "parse_quiz_body loads repr text =
     (case loads text of
        Inl e \<Rightarrow> Inl e
      | Inr data \<Rightarrow>
          (case data of
             JDict d \<Rightarrow>
               (case map_of d ''questions'' of
                  Some (JList items) \<Rightarrow> Inr (parse_items repr items [])
                | _ \<Rightarrow> Inr [])
           | JList items \<Rightarrow> Inr (parse_items repr items [])
           | _ \<Rightarrow> Inr []))"

text \<open>\<open>_parse_quiz_json\<close>: \<open>except Exception: return []\<close> around the body.\<close>

definition parse_quiz_json ::
  "(string \<Rightarrow> py_exception + 'n json) \<Rightarrow> ('n json \<Rightarrow> string) \<Rightarrow> string
     \<Rightarrow> quiz_item list" where
  "parse_quiz_json loads repr text =
     (case parse_quiz_body loads repr text of Inl e \<Rightarrow> [] | Inr normalized \<Rightarrow> normalized)"

section \<open>Quiz generation\<close>

text \<open>The decimal text of an \<open>int\<close>, as an f-string writes it.\<close>

fun str_nat :: "nat \<Rightarrow> string" where
  "str_nat n =
     (if n < 10 then [char_of (48 + n)] else str_nat (n div 10) @ [char_of (48 + n mod 10)])"

declare str_nat.simps [simp del]

definition str_int :: "int \<Rightarrow> string" where
  "str_int i = (if i < 0 then CHR ''-'' # str_nat (nat (- i)) else str_nat (nat i))"

record message =
  role :: string
  content :: string

text \<open>\<open>n = max(3, min(5, int(num_questions)))\<close>, with the default \<open>num_questions = 4\<close>.\<close>

definition quiz_count :: "int option \<Rightarrow> int" where
  "quiz_count num_questions =
     max 3 (min 5 (case num_questions of None \<Rightarrow> 4 | Some k \<Rightarrow> k))"

definition quiz_messages :: "string \<Rightarrow> int \<Rightarrow> message list" where
  "quiz_messages topic n =
     (let system =
            ''You are a helpful quiz generator. Create concise questions testing core understanding.'';
          prompt =
            ''Create a short quiz about the topic. Return JSON with keys: questions -> list of ''
            @ ''objects each with 'question' and 'answer'. Keep questions short and clear.''
            @ ''\<newline>\<newline>Topic: '' @ topic @ ''\<newline>Number of questions: '' @ str_int n
            @ ''\<newline>\<newline>JSON only:''
      in [\<lparr>role = ''system'', content = system\<rparr>, \<lparr>role = ''user'', content = prompt\<rparr>])"

text \<open>
  \<open>generate_quiz\<close>. The completion call \<open>_call_openai_chat\<close> is the parameter \<open>chat\<close>: it
  returns the reply or the exception it raises, which \<open>generate_quiz\<close> does not catch.
\<close>

definition generate_quiz ::
  "(message list \<Rightarrow> py_exception + string) \<Rightarrow> (string \<Rightarrow> py_exception + 'n json)
     \<Rightarrow> ('n json \<Rightarrow> string) \<Rightarrow> string \<Rightarrow> int option
     \<Rightarrow> py_exception + quiz_item list" where
  "generate_quiz chat loads repr topic0 num_questions =
     (let topic = strip topic0;
          n = quiz_count num_questions
      in case chat (quiz_messages topic n) of
           Inl e \<Rightarrow> Inl e
         | Inr raw \<Rightarrow> Inr (parse_quiz_json loads repr raw))"

section \<open>The specification's wording\<close>

text \<open>
  Replacing every maximal run of characters of a class by one space, written without
  reference to the matcher: a class character followed by another one is dropped, the
  last one of a run becomes the space.
\<close>

fun replace_runs :: "(char \<Rightarrow> bool) \<Rightarrow> string \<Rightarrow> string" where
  "replace_runs cls [] = []"
| "replace_runs cls [c] = (if cls c then '' '' else [c])"
| "replace_runs cls (c # d # cs) =
     (if cls c
      then (if cls d then replace_runs cls (d # cs) else CHR '' '' # replace_runs cls (d # cs))
      else c # replace_runs cls (d # cs))"

text \<open>
  Normalization as the specification words it: lowercase; every maximal run of non-word
  characters (anything that is not a letter, a digit or the underscore) becomes one space;
  whitespace runs become one space; leading and trailing whitespace is cut off.
\<close>

definition normalize_spec :: "string \<Rightarrow> string" where
  "normalize_spec s = strip (replace_runs isspace (replace_runs re_nonword (lower s)))"

text \<open>
  The same with the underscore among the replaced characters: the runs are those of
  characters that are neither letters nor digits.
\<close>

definition normalize_amended :: "string \<Rightarrow> string" where
  "normalize_amended s =
     strip (replace_runs isspace (replace_runs (\<lambda>c. \<not> isalnum c) (lower s)))"

text \<open>
  Parsing as the specification words it: the item source is the list under the key
  \<open>questions\<close> of an object, or the value itself when it is a list, and is empty otherwise;
  the elements kept are the records whose two fields, coerced to text and trimmed, are not
  empty.
\<close>

definition item_source :: "'n json \<Rightarrow> 'n json list" where
  "item_source data =
     (case data of
        JDict d \<Rightarrow> (case map_of d ''questions'' of Some (JList items) \<Rightarrow> items | _ \<Rightarrow> [])
      | JList items \<Rightarrow> items
      | _ \<Rightarrow> [])"

definition item_field :: "('n json \<Rightarrow> string) \<Rightarrow> 'n json \<Rightarrow> string \<Rightarrow> string" where
  "item_field repr item key =
     (case item of JDict d \<Rightarrow> strip (py_str repr (dict_get d key (JStr []))) | _ \<Rightarrow> [])"

definition is_record :: "'n json \<Rightarrow> bool" where
  "is_record item = (case item of JDict d \<Rightarrow> True | _ \<Rightarrow> False)"

definition parse_quiz_spec ::
  "(string \<Rightarrow> py_exception + 'n json) \<Rightarrow> ('n json \<Rightarrow> string) \<Rightarrow> string
     \<Rightarrow> quiz_item list" where
  "parse_quiz_spec loads repr text =
     (case loads text of
        Inl e \<Rightarrow> []
      | Inr data \<Rightarrow>
          map (\<lambda>item. \<lparr>question = item_field repr item ''question'',
                        answer = item_field repr item ''answer''\<rparr>)
            (filter (\<lambda>item. is_record item \<and> item_field repr item ''question'' \<noteq> []
                             \<and> item_field repr item ''answer'' \<noteq> [])
               (item_source data)))"

section \<open>Auxiliary notions\<close>

text \<open>Cutting a class off the right end, and off both ends.\<close>

definition drop_right :: "('a \<Rightarrow> bool) \<Rightarrow> 'a list \<Rightarrow> 'a list" where
  "drop_right P xs = rev (dropWhile P (rev xs))"

definition trim :: "('a \<Rightarrow> bool) \<Rightarrow> 'a list \<Rightarrow> 'a list" where
  "trim P xs = drop_right P (dropWhile P xs)"

text \<open>
  \<open>json.loads\<close> on the two texts of the examples: the first decodes to a \<open>dict\<close>, the second,
  \<open>not json\<close>, raises \<open>JSONDecodeError\<close>. It is used at these two texts only.
\<close>

definition loads_examples :: "string \<Rightarrow> py_exception + int json" where
  \<open>loads_examples text =
     (if text = ''{"questions": [{"question":"Q1","answer":"A1"},{"question":"","answer":"A2"}]}''
      then Inr (JDict [(''questions'',
                  JList [JDict [(''question'', JStr ''Q1''), (''answer'', JStr ''A1'')],
                         JDict [(''question'', JStr []), (''answer'', JStr ''A2'')]])])
      else Inl JSONDecodeError)\<close>

text \<open>
  A part of the interpreter's tables, with the features of \<open>str.lower\<close> that a map over the
  characters does not have: the Latin and Greek capitals move by 32, the capital I with a
  dot (304) becomes two code points, and the capital sigma (931) becomes the final sigma
  (962) after a cased letter that no cased letter follows, apostrophes, full stops and
  the combining dot (775) not counting, and the sigma (963) elsewhere.
\<close>

definition sample_isspace :: "nat \<Rightarrow> bool" where
  "sample_isspace n =
     ((9 \<le> n \<and> n \<le> 13) \<or> (28 \<le> n \<and> n \<le> 32) \<or> n = 133 \<or> n = 160 \<or> n = 8232 \<or> n = 12288)"

definition sample_cased :: "nat \<Rightarrow> bool" where
  "sample_cased n =
     ((65 \<le> n \<and> n \<le> 90) \<or> (97 \<le> n \<and> n \<le> 122) \<or> (192 \<le> n \<and> n \<le> 214)
      \<or> (216 \<le> n \<and> n \<le> 246) \<or> (248 \<le> n \<and> n \<le> 255) \<or> n = 304
      \<or> (913 \<le> n \<and> n \<le> 929) \<or> (931 \<le> n \<and> n \<le> 937) \<or> (945 \<le> n \<and> n \<le> 969))"

definition sample_isalnum :: "nat \<Rightarrow> bool" where
  "sample_isalnum n = ((48 \<le> n \<and> n \<le> 57) \<or> sample_cased n)"

definition sample_ignorable :: "nat \<Rightarrow> bool" where
  "sample_ignorable n = (n = 39 \<or> n = 46 \<or> n = 775)"

definition sample_lower_one :: "nat \<Rightarrow> nat list" where
  "sample_lower_one n =
     (if (65 \<le> n \<and> n \<le> 90) \<or> (192 \<le> n \<and> n \<le> 214) \<or> (216 \<le> n \<and> n \<le> 222)
         \<or> (913 \<le> n \<and> n \<le> 929) \<or> (931 \<le> n \<and> n \<le> 937)
      then [n + 32]
      else if n = 304 then [105, 775]
      else [n])"

fun sample_lower_from :: "bool \<Rightarrow> nat list \<Rightarrow> nat list" where
  "sample_lower_from after_cased [] = []"
| "sample_lower_from after_cased (c # cs) =
     (if c = 931
      then (case dropWhile sample_ignorable cs of
              [] \<Rightarrow> [if after_cased then 962 else 963]
            | d # ds \<Rightarrow> [if after_cased \<and> \<not> sample_cased d then 962 else 963])
      else sample_lower_one c)
     @ sample_lower_from (if sample_ignorable c then after_cased else sample_cased c) cs"

definition sample_lower :: "nat list \<Rightarrow> nat list" where
  "sample_lower s = sample_lower_from False s"

section \<open>Character classes\<close>

lemma isspace_not_alnum: "isspace c \<Longrightarrow> \<not> isalnum c"
  by (auto simp: isspace_def isalnum_def Let_def)

lemma isspace_space: "isspace CHR '' ''"
  by (simp add: isspace_def ord_def)

lemma sep_class: "(re_nonword c \<or> c = CHR ''_'') = (\<not> isalnum c)"
  by (auto simp: re_nonword_def re_word_def isalnum_def ord_def)

lemma dropWhile_re_sub:
  assumes "\<And>c. Q c \<Longrightarrow> P c" and "Q sp"
  shows "dropWhile Q (re_sub_plus P [sp] x) = re_sub_plus P [sp] (dropWhile P x)"
proof (cases x)
  case Nil
  then show ?thesis by simp
next
  case (Cons c cs)
  show ?thesis
  proof (cases "P c")
    case True
    let ?y = "dropWhile P cs"
    have "dropWhile Q (re_sub_plus P [sp] ?y) = re_sub_plus P [sp] ?y"
    proof (cases ?y)
      case Nil
      show ?thesis unfolding Nil by simp
    next
      case (Cons d ds)
      then have "\<not> P d" by (metis hd_dropWhile list.sel(1) list.distinct(1))
      with assms(1) have "\<not> Q d" by blast
      with Cons \<open>\<not> P d\<close> show ?thesis by simp
    qed
    with True Cons assms(2) show ?thesis by simp
  next
    case False
    with assms(1) have "\<not> Q c" by blast
    with False Cons show ?thesis by simp
  qed
qed


lemma dropWhile_sub_class:
  assumes "\<And>c. Q c \<Longrightarrow> P c"
  shows "dropWhile P (dropWhile Q x) = dropWhile P x"
  using assms by (induction x) auto


lemma re_sub_absorb:
  assumes "\<And>c. Q c \<Longrightarrow> P c" and "Q sp"
  shows "re_sub_plus Q [sp] (re_sub_plus P [sp] x) = re_sub_plus P [sp] x"
proof (induction "length x" arbitrary: x rule: less_induct)
  case less
  show ?case
  proof (cases x)
    case Nil
    then show ?thesis by simp
  next
    case (Cons c cs)
    show ?thesis
    proof (cases "P c")
      case True
      let ?y = "dropWhile P cs"
      have len: "length ?y < length x"
        using Cons length_dropWhile_le [of P cs] by simp
      have "dropWhile Q (re_sub_plus P [sp] ?y) = re_sub_plus P [sp] (dropWhile P ?y)"
        using assms by (rule dropWhile_re_sub)
      then have "re_sub_plus Q [sp] (dropWhile Q (re_sub_plus P [sp] ?y))
          = re_sub_plus P [sp] ?y"
        using less [OF len] by simp
      with True Cons assms(2) show ?thesis by simp
    next
      case False
      with assms(1) have "\<not> Q c" by blast
      moreover have "length cs < length x" using Cons by simp
      ultimately show ?thesis using False Cons less by simp
    qed
  qed
qed

lemma re_sub_snoc:
  "re_sub_plus P [sp] (x @ [c]) =
     (if P c then (if x \<noteq> [] \<and> P (last x) then re_sub_plus P [sp] x
                  else re_sub_plus P [sp] x @ [sp])
      else re_sub_plus P [sp] x @ [c])"
proof (induction "length x" arbitrary: x rule: less_induct)
  case less
  show ?case
  proof (cases x)
    case Nil
    then show ?thesis by simp
  next
    case (Cons a as)
    show ?thesis
    proof (cases "P a")
      case False
      have "length as < length x" using Cons by simp
      from less [OF this] False Cons show ?thesis by (cases as) auto
    next
      case True
      show ?thesis
      proof (cases "\<forall>z\<in>set as. P z")
        case allP: True
        then have d: "dropWhile P as = []" by simp
        have l: "P (last (a # as))" using allP True by (cases as) auto
        show ?thesis unfolding Cons using True allP l
          by (simp add: dropWhile_append d del: dropWhile_eq_Nil_conv last.simps)
      next
        case notall: False
        let ?y = "dropWhile P as"
        have ne: "?y \<noteq> []" using notall by simp
        have len: "length ?y < length x"
          using Cons length_dropWhile_le [of P as] by simp
        obtain z where z: "z \<in> set as" "\<not> P z" using notall by blast
        then have la: "last ?y = last as" by (rule dropWhile_last)
        have asne: "as \<noteq> []" using z by auto
        have dr: "dropWhile P (as @ [c]) = ?y @ [c]"
          using z by simp
        show ?thesis unfolding Cons
          using True less [OF len] ne la asne dr by simp
      qed
    qed
  qed
qed

lemma re_sub_rev: "re_sub_plus P [sp] (rev x) = rev (re_sub_plus P [sp] x)"
proof (induction "length x" arbitrary: x rule: less_induct)
  case less
  show ?case
  proof (cases x)
    case Nil
    then show ?thesis by simp
  next
    case (Cons a as)
    have ih: "re_sub_plus P [sp] (rev as) = rev (re_sub_plus P [sp] as)"
      using less Cons by simp
    show ?thesis
    proof (cases "P a")
      case False
      with ih Cons show ?thesis by (simp add: re_sub_snoc)
    next
      case True
      have A: "re_sub_plus P [sp] (rev x) =
          (if as \<noteq> [] \<and> P (hd as) then rev (re_sub_plus P [sp] as)
           else rev (re_sub_plus P [sp] as) @ [sp])"
        using True ih Cons by (simp add: re_sub_snoc last_rev)
      have B: "rev (re_sub_plus P [sp] x) =
          (if as \<noteq> [] \<and> P (hd as) then rev (re_sub_plus P [sp] as)
           else rev (re_sub_plus P [sp] as) @ [sp])"
        using True Cons by (cases as) auto
      from A B show ?thesis by simp
    qed
  qed
qed

lemma drop_right_re_sub:
  assumes "\<And>c. Q c \<Longrightarrow> P c" and "Q sp"
  shows "drop_right Q (re_sub_plus P [sp] x) = re_sub_plus P [sp] (drop_right P x)"
proof -
  have "dropWhile Q (re_sub_plus P [sp] (rev x)) = re_sub_plus P [sp] (dropWhile P (rev x))"
    using assms by (rule dropWhile_re_sub)
  then show ?thesis by (simp add: drop_right_def re_sub_rev)
qed

lemma drop_right_Cons:
  "drop_right Q (c # cs) = (if \<forall>x\<in>set (c # cs). Q x then [] else c # drop_right Q cs)"
  by (auto simp: drop_right_def dropWhile_append)

lemma dropWhile_drop_right:
  assumes "\<And>c. Q c \<Longrightarrow> P c"
  shows "dropWhile P (drop_right Q y) = drop_right Q (dropWhile P y)"
proof (induction y)
  case Nil
  then show ?case by (simp add: drop_right_def)
next
  case (Cons c cs)
  show ?case
  proof (cases "\<forall>x\<in>set (c # cs). Q x")
    case True
    then have "\<forall>x\<in>set (c # cs). P x" using assms by blast
    then have R: "dropWhile P (c # cs) = []" by (simp del: dropWhile.simps)
    have L: "drop_right Q (c # cs) = []" using True by (simp add: drop_right_Cons)
    show ?thesis by (simp only: L R) (simp add: drop_right_def)
  next
    case False
    show ?thesis
    proof (cases "P c")
      case True
      have "drop_right Q (c # cs) = c # drop_right Q cs"
        using False by (simp only: drop_right_Cons if_False)
      with True Cons show ?thesis by simp
    next
      case nP: False
      with assms have "\<not> Q c" by blast
      with nP show ?thesis by (simp add: drop_right_Cons)
    qed
  qed
qed

lemma drop_right_sub_class:
  assumes "\<And>c. Q c \<Longrightarrow> P c"
  shows "drop_right P (drop_right Q x) = drop_right P x"
  using dropWhile_sub_class [of Q P "rev x"] assms by (simp add: drop_right_def)

lemma trim_strip:
  assumes "\<And>c. Q c \<Longrightarrow> P c"
  shows "trim P (drop_right Q (dropWhile Q t)) = trim P t"
proof -
  have "trim P (drop_right Q (dropWhile Q t))
      = drop_right P (drop_right Q (dropWhile P (dropWhile Q t)))"
    using assms by (simp add: trim_def dropWhile_drop_right)
  also have "\<dots> = drop_right P (dropWhile P (dropWhile Q t))"
    using assms by (rule drop_right_sub_class)
  also have "\<dots> = trim P t"
    using assms by (simp add: trim_def dropWhile_sub_class)
  finally show ?thesis .
qed

lemma trim_re_sub:
  assumes "P sp"
  shows "trim P (re_sub_plus P [sp] x) = re_sub_plus P [sp] (trim P x)"
  using assms by (simp add: trim_def dropWhile_re_sub drop_right_re_sub)

lemma trim_idem: "trim P (trim P x) = trim P x"
proof -
  have "dropWhile P (drop_right P (dropWhile P x)) = drop_right P (dropWhile P (dropWhile P x))"
    by (rule dropWhile_drop_right) simp
  then show ?thesis
    using drop_right_sub_class [of P P "dropWhile P x"] by (simp add: trim_def)
qed

lemma pipeline_closed:
  assumes "\<And>c. Q c \<Longrightarrow> P c" and "Q sp"
  shows "trim Q (re_sub_plus Q [sp] (re_sub_plus P [sp] t)) = re_sub_plus P [sp] (trim P t)"
proof -
  have "trim Q (re_sub_plus Q [sp] (re_sub_plus P [sp] t)) = trim Q (re_sub_plus P [sp] t)"
    using re_sub_absorb [of Q P sp t] assms by simp
  also have "\<dots> = drop_right Q (re_sub_plus P [sp] (dropWhile P t))"
    using dropWhile_re_sub [of Q P sp t] assms by (simp add: trim_def)
  also have "\<dots> = re_sub_plus P [sp] (trim P t)"
    using drop_right_re_sub [of Q P sp "dropWhile P t"] assms by (simp add: trim_def)
  finally show ?thesis .
qed

lemma pipeline_closed_trim:
  assumes "\<And>c. Q c \<Longrightarrow> P c" and "Q sp"
  shows "trim Q (re_sub_plus Q [sp] (re_sub_plus P [sp] (trim Q t)))
       = re_sub_plus P [sp] (trim P t)"
proof -
  have "trim P (trim Q t) = trim P t"
    using trim_strip [of Q P t] assms(1) by (simp add: trim_def)
  with pipeline_closed [of Q P sp "trim Q t"] assms show ?thesis by simp
qed

lemma pipeline_idem:
  assumes "P sp"
  shows "re_sub_plus P [sp] (trim P (re_sub_plus P [sp] (trim P t)))
       = re_sub_plus P [sp] (trim P t)"
  using trim_re_sub [of P sp "trim P t"] re_sub_absorb [of P P sp "trim P t"] assms
  by (simp add: trim_idem)

section \<open>Normalization in closed form\<close>

lemma re_sub_replace_runs: "re_sub_plus P '' '' x = replace_runs P x"
proof (induction P x rule: replace_runs.induct)
  case (1 cls)
  show ?case by simp
next
  case (2 cls c)
  show ?case by simp
next
  case (3 cls c d cs)
  then show ?case by (cases "cls c"; cases "cls d") auto
qed

lemma set_re_sub: "set (re_sub_plus P [sp] x) \<subseteq> insert sp {c \<in> set x. \<not> P c}"
proof (induction P "[sp]" x rule: re_sub_plus.induct)
  case (1 cls)
  show ?case by simp
next
  case (2 cls c cs)
  show ?case
  proof (cases "cls c")
    case True
    with 2 have "set (re_sub_plus cls [sp] (dropWhile cls cs))
        \<subseteq> insert sp {c \<in> set (dropWhile cls cs). \<not> cls c}"
      by simp
    moreover have "set (dropWhile cls cs) \<subseteq> set cs"
      using set_dropWhileD [of _ cls cs] by blast
    ultimately show ?thesis using True by auto
  next
    case False
    with 2 show ?thesis by auto
  qed
qed

lemma set_trim: "set (trim P x) \<subseteq> set x"
proof -
  have "set (drop_right P y) \<subseteq> set y" for y
    using set_dropWhileD [of _ P "rev y"] by (auto simp: drop_right_def)
  moreover have "set (dropWhile P x) \<subseteq> set x"
    using set_dropWhileD [of _ P x] by auto
  ultimately show ?thesis unfolding trim_def by blast
qed

lemma strip_trim: "strip s = trim isspace s"
  by (simp add: strip_def trim_def drop_right_def)

lemma sep_class_fun: "(\<lambda>c. re_nonword c \<or> c = CHR ''_'') = (\<lambda>c. \<not> isalnum c)"
  by (rule ext) (rule sep_class)

text \<open>
  The closed form of \<open>normalize_text\<close>: the characters that are neither letters nor digits
  are cut off both ends of the lowercased text, and each run of them that is left becomes
  one space.
\<close>

lemma normalize_text_closed:
  "normalize_text s = re_sub_plus (\<lambda>c. \<not> isalnum c) '' '' (trim (\<lambda>c. \<not> isalnum c) (lower s))"
proof -
  let ?P = "\<lambda>c. \<not> isalnum c"
  have "normalize_text s =
      trim isspace (re_sub_plus isspace '' '' (re_sub_plus ?P '' '' (trim isspace (lower s))))"
    by (simp add: normalize_text_def sep_class_fun strip_trim)
  also have "\<dots> = re_sub_plus ?P '' '' (trim ?P (lower s))"
    by (rule pipeline_closed_trim) (simp_all add: isspace_not_alnum isspace_space)
  finally show ?thesis .
qed

lemma normalize_amended_closed:
  "normalize_amended s = re_sub_plus (\<lambda>c. \<not> isalnum c) '' '' (trim (\<lambda>c. \<not> isalnum c) (lower s))"
proof -
  let ?P = "\<lambda>c. \<not> isalnum c"
  have "normalize_amended s =
      trim isspace (re_sub_plus isspace '' '' (re_sub_plus ?P '' '' (lower s)))"
    by (simp add: normalize_amended_def re_sub_replace_runs strip_trim)
  also have "\<dots> = re_sub_plus ?P '' '' (trim ?P (lower s))"
    by (rule pipeline_closed) (simp_all add: isspace_not_alnum isspace_space)
  finally show ?thesis .
qed

lemma normalize_text_no_sep: "c \<in> set (normalize_text s) \<Longrightarrow> c = CHR '' '' \<or> isalnum c"
  unfolding normalize_text_closed using set_re_sub by fastforce

section \<open>Normalization over all code points\<close>

lemma strip_cp_trim: "strip_cp str_isspace s = trim str_isspace s"
  by (simp add: strip_cp_def trim_def drop_right_def)

lemma normalize_text_cp_closed:
  assumes "\<And>c. str_isspace c \<Longrightarrow> \<not> str_isalnum c" and "str_isspace 32"
  shows "normalize_text_cp str_lower str_isspace str_isalnum s =
     re_sub_plus (\<lambda>c. \<not> (str_isalnum c \<or> c = 95) \<or> c = 95) [32]
       (trim (\<lambda>c. \<not> (str_isalnum c \<or> c = 95) \<or> c = 95) (str_lower s))"
proof -
  let ?P = "\<lambda>c. \<not> (str_isalnum c \<or> c = 95) \<or> c = 95"
  have "normalize_text_cp str_lower str_isspace str_isalnum s =
      trim str_isspace (re_sub_plus str_isspace [32]
        (re_sub_plus ?P [32] (trim str_isspace (str_lower s))))"
    by (simp add: normalize_text_cp_def strip_cp_trim)
  also have "\<dots> = re_sub_plus ?P [32] (trim ?P (str_lower s))"
  proof (rule pipeline_closed_trim)
    fix c
    assume "str_isspace c"
    then show "?P c" using assms(1) by blast
  next
    show "str_isspace 32" by (rule assms(2))
  qed
  finally show ?thesis .
qed

lemma sample_lower_from_fixed:
  "\<forall>d\<in>set r. d \<noteq> 931 \<and> sample_lower_one d = [d] \<Longrightarrow> sample_lower_from b r = r"
  by (induction r arbitrary: b) simp_all

lemma sample_lower_one_image:
  "c \<noteq> 931 \<Longrightarrow> d \<in> set (sample_lower_one c) \<Longrightarrow> d \<noteq> 931 \<and> sample_lower_one d = [d]"
  by (auto simp: sample_lower_one_def split: if_splits)

lemma sample_lower_from_image:
  "d \<in> set (sample_lower_from b s) \<Longrightarrow> d \<noteq> 931 \<and> sample_lower_one d = [d]"
proof (induction s arbitrary: b)
  case Nil
  then show ?case by simp
next
  case (Cons c cs)
  show ?case
  proof (cases "d \<in> set (sample_lower_from (if sample_ignorable c then b else sample_cased c) cs)")
    case True
    then show ?thesis by (rule Cons.IH)
  next
    case False
    show ?thesis
    proof (cases "c = 931")
      case True
      with False Cons.prems have "d = 962 \<or> d = 963"
        by (auto split: list.splits if_splits)
      then show ?thesis by (auto simp: sample_lower_one_def)
    next
      case c: False
      with False Cons.prems have "d \<in> set (sample_lower_one c)" by auto
      with c show ?thesis by (rule sample_lower_one_image)
    qed
  qed
qed

lemma sample_lower_single:
  "sample_lower [d] = (if d = 931 then [963] else sample_lower_one d)"
  by (simp add: sample_lower_def)

section \<open>The grading loop\<close>

lemma py_in_sublist: "py_in sub s = sublist sub s"
proof (induction s)
  case Nil
  show ?case by (cases sub) auto
next
  case (Cons c cs)
  then show ?case by (cases sub) (simp_all add: sublist_Cons_right)
qed

lemma py_in_iff: "py_in sub s = (\<exists>p t. s = p @ sub @ t)"
  by (simp add: py_in_sublist sublist_def)

lemma check_loop_eq:
  assumes "\<forall>i\<in>set idx. i < length ua \<and> i < length ca"
  shows "check_loop ua ca idx (score, fb) =
     Inr (score + int (length (filter
            (\<lambda>i. is_correct (normalize_text (ua ! i)) (normalize_text (ca ! i))) idx)),
          fb @ map (\<lambda>i. if is_correct (normalize_text (ua ! i)) (normalize_text (ca ! i))
                         then ''Correct!'' else ''Not quite. Expected: '' @ ca ! i) idx)"
  using assms
proof (induction idx arbitrary: score fb)
  case Nil
  show ?case by simp
next
  case (Cons i rest)
  then have "i < length ua" "i < length ca" "\<forall>i\<in>set rest. i < length ua \<and> i < length ca"
    by simp_all
  then show ?case
    using Cons.IH by (simp add: py_getitem_def Let_def)
qed

lemma check_answers_eq:
  "check_answers ua ca =
     Inr (int (length (filter
            (\<lambda>i. is_correct (normalize_text (ua ! i)) (normalize_text (ca ! i)))
            [0..<min (length ua) (length ca)])),
          map (\<lambda>i. if is_correct (normalize_text (ua ! i)) (normalize_text (ca ! i))
                    then ''Correct!'' else ''Not quite. Expected: '' @ ca ! i)
            [0..<min (length ua) (length ca)])"
proof -
  have "\<forall>i\<in>set [0..<min (length ua) (length ca)]. i < length ua \<and> i < length ca"
    by simp
  from check_loop_eq [OF this, of 0 "[]"] show ?thesis
    by (simp add: check_answers_def Let_def)
qed

section \<open>The parsing loop\<close>

lemma parse_items_eq:
  "parse_items repr items normalized =
     normalized @
     map (\<lambda>item. \<lparr>question = item_field repr item ''question'',
                   answer = item_field repr item ''answer''\<rparr>)
       (filter (\<lambda>item. is_record item \<and> item_field repr item ''question'' \<noteq> []
                        \<and> item_field repr item ''answer'' \<noteq> []) items)"
proof (induction items arbitrary: normalized)
  case Nil
  show ?case by simp
next
  case (Cons item items)
  show ?case
    by (cases item) (simp_all add: Cons.IH item_field_def is_record_def Let_def)
qed

lemma parse_quiz_body_eq:
  "parse_quiz_body loads repr text =
     (case loads text of
        Inl e \<Rightarrow> Inl e
      | Inr data \<Rightarrow> Inr (parse_items repr (item_source data) []))"
  by (simp add: parse_quiz_body_def item_source_def
           split: sum.splits json.splits option.splits)

section \<open>Properties of normalization\<close>

text \<open>
  C4, as the code has it: \<open>normalize_text\<close> lowercases the text, replaces every maximal run
  of characters that are neither letters nor digits by one space, collapses whitespace runs
  to one space and cuts off leading and trailing whitespace. The underscore is among the
  replaced characters: no underscore is left in a normalized text.
\<close>

theorem normalize_text_amended:
  "normalize_text s = normalize_amended s \<and> CHR ''_'' \<notin> set (normalize_text s)"
proof -
  have "normalize_text s = normalize_amended s"
    by (simp only: normalize_text_closed normalize_amended_closed)
  moreover have "\<not> isalnum CHR ''_''"
    by (simp add: isalnum_def ord_def)
  then have "CHR ''_'' \<notin> set (normalize_text s)"
    using normalize_text_no_sep [of "CHR ''_''" s] by auto
  ultimately show ?thesis by simp
qed

text \<open>
  C4 as it is stated fails: with the underscore counted as a word character the text
  \<open>a_b\<close> would be left as it is, and \<open>normalize_text\<close> returns \<open>a b\<close>.
\<close>

theorem normalize_text_underscore_counterexample:
  "normalize_text ''a_b'' = ''a b'' \<and> normalize_spec ''a_b'' = ''a_b''
   \<and> normalize_text ''a_b'' \<noteq> normalize_spec ''a_b''"
proof -
  have a: "normalize_text ''a_b'' = ''a b''" by code_simp
  have b: "normalize_spec ''a_b'' = ''a_b''" by code_simp
  from a b show ?thesis by simp
qed

text \<open>
  C5: normalization is idempotent, on texts over all code points. The tables of the
  interpreter enter through four facts: a whitespace character is not alphanumeric; the
  space is whitespace and \<open>lower\<close> leaves it alone; a text whose characters \<open>lower\<close> leaves
  alone one by one is left alone as a whole; and \<open>lower\<close> leaves alone every alphanumeric
  character that a lowercased text contains.
\<close>

theorem normalize_text_idempotent:
  assumes whitespace: "\<And>c. str_isspace c \<Longrightarrow> \<not> str_isalnum c"
    and space: "str_isspace 32"
    and lower_space: "str_lower [32] = [32]"
    and lower_fixed: "\<And>r. (\<forall>d\<in>set r. str_lower [d] = [d]) \<Longrightarrow> str_lower r = r"
    and lower_image: "\<And>s d. d \<in> set (str_lower s) \<Longrightarrow> str_isalnum d \<Longrightarrow> str_lower [d] = [d]"
  shows "normalize_text_cp str_lower str_isspace str_isalnum
           (normalize_text_cp str_lower str_isspace str_isalnum x)
       = normalize_text_cp str_lower str_isspace str_isalnum x"
proof -
  let ?P = "\<lambda>c. \<not> (str_isalnum c \<or> c = 95) \<or> c = 95"
  let ?N = "normalize_text_cp str_lower str_isspace str_isalnum"
  have closed: "?N s = re_sub_plus ?P [32] (trim ?P (str_lower s))" for s
    using whitespace space by (rule normalize_text_cp_closed)
  have sep: "?P 32" using whitespace [OF space] by simp
  have "str_lower (?N x) = ?N x"
  proof (rule lower_fixed, rule ballI)
    fix d
    assume "d \<in> set (?N x)"
    then have "d = 32 \<or> (d \<in> set (trim ?P (str_lower x)) \<and> \<not> ?P d)"
      unfolding closed using set_re_sub [of ?P 32 "trim ?P (str_lower x)"] by auto
    then have "d = 32 \<or> (d \<in> set (str_lower x) \<and> str_isalnum d)"
      using set_trim [of ?P "str_lower x"] by auto
    then show "str_lower [d] = [d]"
      using lower_space lower_image by blast
  qed
  then have "?N (?N x) = re_sub_plus ?P [32] (trim ?P (?N x))"
    by (simp add: closed [of "?N x"])
  also have "\<dots> = re_sub_plus ?P [32] (trim ?P (re_sub_plus ?P [32] (trim ?P (str_lower x))))"
    by (simp only: closed [of x])
  also have "\<dots> = re_sub_plus ?P [32] (trim ?P (str_lower x))"
    using sep by (rule pipeline_idem)
  also have "\<dots> = ?N x"
    by (simp only: closed [of x])
  finally show ?thesis .
qed

theorem normalize_text_idempotent_witness:
  "normalize_text_cp sample_lower sample_isspace sample_isalnum [913, 931, 32, 304, 95]
     = [945, 962, 32, 105]
   \<and> normalize_text_cp sample_lower sample_isspace sample_isalnum [945, 962, 32, 105]
     = [945, 962, 32, 105]"
proof -
  have whitespace: "\<And>c. sample_isspace c \<Longrightarrow> \<not> sample_isalnum c"
    by (auto simp: sample_isspace_def sample_isalnum_def sample_cased_def)
  have space: "sample_isspace 32"
    by (simp add: sample_isspace_def)
  have lower_space: "sample_lower [32] = [32]"
    by (simp add: sample_lower_single sample_lower_one_def)
  have lower_fixed: "\<And>r. (\<forall>d\<in>set r. sample_lower [d] = [d]) \<Longrightarrow> sample_lower r = r"
  proof -
    fix r
    assume "\<forall>d\<in>set r. sample_lower [d] = [d]"
    then have "\<forall>d\<in>set r. d \<noteq> 931 \<and> sample_lower_one d = [d]"
      by (auto simp: sample_lower_single split: if_splits)
    then show "sample_lower r = r"
      unfolding sample_lower_def by (rule sample_lower_from_fixed)
  qed
  have lower_image:
    "\<And>s d. d \<in> set (sample_lower s) \<Longrightarrow> sample_isalnum d \<Longrightarrow> sample_lower [d] = [d]"
    using sample_lower_from_image by (auto simp: sample_lower_def sample_lower_single)
  have computed: "normalize_text_cp sample_lower sample_isspace sample_isalnum
      [913, 931, 32, 304, 95] = [945, 962, 32, 105]"
    by code_simp
  from normalize_text_idempotent [of sample_isspace sample_isalnum sample_lower
      "[913, 931, 32, 304, 95]", OF whitespace space lower_space lower_fixed lower_image]
    computed
  show ?thesis by simp
qed

text \<open>
  C6, as the code has it: normalization ignores case and turns punctuation into a word
  separator, so \<open>Photo-synthesis!\<close> normalizes to the two words \<open>photo synthesis\<close>, as the text
  \<open>photo synthesis\<close> does.
\<close>

theorem normalize_text_photo_synthesis:
  "normalize_text ''Photo-synthesis!'' = ''photo synthesis''
   \<and> normalize_text ''Photo-synthesis!'' = normalize_text ''photo synthesis''"
proof -
  have a: "normalize_text ''Photo-synthesis!'' = ''photo synthesis''" by code_simp
  have b: "normalize_text ''photo synthesis'' = ''photo synthesis''" by code_simp
  from a b show ?thesis by simp
qed

text \<open>
  C6 as it is stated fails: the hyphen leaves a space behind, and the one word
  \<open>photosynthesis\<close> has none.
\<close>

theorem normalize_text_photosynthesis_counterexample:
  "normalize_text ''Photo-synthesis!'' \<noteq> normalize_text ''photosynthesis''"
proof -
  have a: "normalize_text ''Photo-synthesis!'' = ''photo synthesis''" by code_simp
  have b: "normalize_text ''photosynthesis'' = ''photosynthesis''" by code_simp
  from a b show ?thesis by simp
qed

section \<open>Properties of grading\<close>

text \<open>
  C1: for every index \<open>i\<close> below \<open>total\<close>, with \<open>u\<close> and \<open>c\<close> the normalized user answer and
  correct answer, item \<open>i\<close> is judged correct exactly when \<open>u = c\<close>, or \<open>u\<close> is not empty and
  a substring of \<open>c\<close>, or \<open>c\<close> is not empty and a substring of \<open>u\<close>; and the verdict is the
  same when the two answer lists change places.
\<close>

theorem check_answers_verdict:
  assumes "i < min (length user_answers) (length correct_answers)"
  shows "\<exists>score feedback score' feedback'.
      check_answers user_answers correct_answers = Inr (score, feedback)
    \<and> check_answers correct_answers user_answers = Inr (score', feedback')
    \<and> ((feedback ! i = ''Correct!'') =
         (let u = normalize_text (user_answers ! i);
              c = normalize_text (correct_answers ! i)
          in u = c \<or> (u \<noteq> [] \<and> (\<exists>p s. c = p @ u @ s))
             \<or> (c \<noteq> [] \<and> (\<exists>p s. u = p @ c @ s))))
    \<and> ((feedback' ! i = ''Correct!'') = (feedback ! i = ''Correct!''))"
proof -
  let ?n = "min (length user_answers) (length correct_answers)"
  let ?u = "normalize_text (user_answers ! i)"
  let ?c = "normalize_text (correct_answers ! i)"
  have n': "min (length correct_answers) (length user_answers) = ?n" by simp
  obtain score feedback where r: "check_answers user_answers correct_answers = Inr (score, feedback)"
    and f: "feedback = map (\<lambda>i. if is_correct (normalize_text (user_answers ! i))
                                      (normalize_text (correct_answers ! i))
                    then ''Correct!'' else ''Not quite. Expected: '' @ correct_answers ! i) [0..<?n]"
    using check_answers_eq [of user_answers correct_answers] by blast
  obtain score' feedback' where r': "check_answers correct_answers user_answers = Inr (score', feedback')"
    and f': "feedback' = map (\<lambda>i. if is_correct (normalize_text (correct_answers ! i))
                                      (normalize_text (user_answers ! i))
                    then ''Correct!'' else ''Not quite. Expected: '' @ user_answers ! i) [0..<?n]"
    using check_answers_eq [of correct_answers user_answers] unfolding n' by blast
  have v: "(feedback ! i = ''Correct!'') = is_correct ?u ?c"
    using assms by (simp add: f)
  have v': "(feedback' ! i = ''Correct!'') = is_correct ?c ?u"
    using assms by (simp add: f')
  have sym: "is_correct ?c ?u = is_correct ?u ?c"
    by (auto simp: is_correct_def)
  have "is_correct ?u ?c =
      (?u = ?c \<or> (?u \<noteq> [] \<and> (\<exists>p s. ?c = p @ ?u @ s)) \<or> (?c \<noteq> [] \<and> (\<exists>p s. ?u = p @ ?c @ s)))"
    by (simp add: is_correct_def py_in_iff)
  with v v' sym r r' show ?thesis by (simp add: Let_def)
qed

theorem check_answers_verdict_witness:
  "(0::nat) < min (length [''cell wall'']) (length [''cell''])
   \<and> (\<exists>score feedback score' feedback'.
        check_answers [''cell wall''] [''cell''] = Inr (score, feedback)
      \<and> check_answers [''cell''] [''cell wall''] = Inr (score', feedback')
      \<and> feedback ! 0 = ''Correct!'' \<and> feedback' ! 0 = ''Correct!'')"
proof -
  have h: "(0::nat) < min (length [''cell wall'']) (length [''cell''])" by simp
  have u: "normalize_text ''cell wall'' = ''cell wall''" by code_simp
  have c: "normalize_text ''cell'' = ''cell''" by code_simp
  have s: "''cell wall'' = [] @ ''cell'' @ '' wall''" by simp
  have "\<exists>p s. ''cell wall'' = p @ ''cell'' @ s" using s by blast
  with check_answers_verdict [OF h] h u c show ?thesis
    by (simp add: Let_def) blast
qed

text \<open>
  C2: \<open>check_answers\<close> looks at the shared prefix of length
  \<open>total = min (length user_answers) (length correct_answers)\<close> only: the result is that of
  the two prefixes, the feedback has \<open>total\<close> entries in the order of the indices, the score
  is the number of correct items, and an empty list on either side gives \<open>(0, [])\<close>; no
  exception is raised.
\<close>

theorem check_answers_shared_prefix:
  "check_answers user_answers correct_answers =
     check_answers (take (min (length user_answers) (length correct_answers)) user_answers)
                   (take (min (length user_answers) (length correct_answers)) correct_answers)
   \<and> (\<exists>score feedback.
        check_answers user_answers correct_answers = Inr (score, feedback)
      \<and> length feedback = min (length user_answers) (length correct_answers)
      \<and> feedback =
          map (\<lambda>i. if is_correct (normalize_text (user_answers ! i))
                                  (normalize_text (correct_answers ! i))
                    then ''Correct!'' else ''Not quite. Expected: '' @ correct_answers ! i)
            [0..<min (length user_answers) (length correct_answers)]
      \<and> score =
          int (card {i. i < min (length user_answers) (length correct_answers)
                        \<and> is_correct (normalize_text (user_answers ! i))
                                     (normalize_text (correct_answers ! i))}))
   \<and> check_answers [] correct_answers = Inr (0, [])
   \<and> check_answers user_answers [] = Inr (0, [])"
proof -
  let ?n = "min (length user_answers) (length correct_answers)"
  let ?ok = "\<lambda>ua ca i. is_correct (normalize_text (ua ! i)) (normalize_text (ca ! i))"
  let ?fb = "\<lambda>ua ca i. if ?ok ua ca i then ''Correct!'' else ''Not quite. Expected: '' @ ca ! i"
  have len: "min (length (take ?n user_answers)) (length (take ?n correct_answers)) = ?n"
    by simp
  have f1: "filter (?ok (take ?n user_answers) (take ?n correct_answers)) [0..<?n]
      = filter (?ok user_answers correct_answers) [0..<?n]"
    by (rule filter_cong) simp_all
  have f2: "map (?fb (take ?n user_answers) (take ?n correct_answers)) [0..<?n]
      = map (?fb user_answers correct_answers) [0..<?n]"
    by (rule map_cong) simp_all
  have prefix_only: "check_answers user_answers correct_answers =
      check_answers (take ?n user_answers) (take ?n correct_answers)"
    unfolding check_answers_eq [of user_answers correct_answers]
      check_answers_eq [of "take ?n user_answers" "take ?n correct_answers"] len f1 f2 ..
  have "{i. i < ?n \<and> ?ok user_answers correct_answers i}
      = set (filter (?ok user_answers correct_answers) [0..<?n])"
    by auto
  then have cnt: "card {i. i < ?n \<and> ?ok user_answers correct_answers i}
      = length (filter (?ok user_answers correct_answers) [0..<?n])"
    by (simp only: distinct_card [OF distinct_filter [OF distinct_upt]])
  have e1: "check_answers [] correct_answers = Inr (0, [])"
    by (simp add: check_answers_eq)
  have e2: "check_answers user_answers [] = Inr (0, [])"
    by (simp add: check_answers_eq)
  have result: "\<exists>score feedback.
        check_answers user_answers correct_answers = Inr (score, feedback)
      \<and> length feedback = ?n
      \<and> feedback = map (?fb user_answers correct_answers) [0..<?n]
      \<and> score = int (card {i. i < ?n \<and> ?ok user_answers correct_answers i})"
    unfolding check_answers_eq [of user_answers correct_answers] cnt by simp
  from prefix_only result e1 e2 show ?thesis by (intro conjI)
qed

text \<open>
  C3: the feedback of a correct item is the fixed text \<open>Correct!\<close>; the feedback of an
  incorrect item ends with the correct answer as it was given, not its normalized form.
  For the correct answers \<open>Mitochondria\<close>, \<open>Paris\<close> and the user answers \<open>mitochondria!!\<close>,
  \<open>London\<close> the score is 1 and the feedback is \<open>Correct!\<close>, \<open>Not quite. Expected: Paris\<close>.
\<close>

theorem check_answers_feedback:
  "(i < min (length user_answers) (length correct_answers) \<longrightarrow>
      (\<exists>score feedback.
         check_answers user_answers correct_answers = Inr (score, feedback)
       \<and> feedback ! i =
           (if is_correct (normalize_text (user_answers ! i)) (normalize_text (correct_answers ! i))
            then ''Correct!'' else ''Not quite. Expected: '' @ correct_answers ! i)))
   \<and> check_answers [''mitochondria!!'', ''London''] [''Mitochondria'', ''Paris'']
       = Inr (1, [''Correct!'', ''Not quite. Expected: Paris''])"
proof -
  have general: "i < min (length user_answers) (length correct_answers) \<longrightarrow>
      (\<exists>score feedback.
         check_answers user_answers correct_answers = Inr (score, feedback)
       \<and> feedback ! i =
           (if is_correct (normalize_text (user_answers ! i)) (normalize_text (correct_answers ! i))
            then ''Correct!'' else ''Not quite. Expected: '' @ correct_answers ! i))"
    by (simp add: check_answers_eq)
  have n1: "normalize_text ''mitochondria!!'' = ''mitochondria''" by code_simp
  have n2: "normalize_text ''Mitochondria'' = ''mitochondria''" by code_simp
  have n3: "normalize_text ''London'' = ''london''" by code_simp
  have n4: "normalize_text ''Paris'' = ''paris''" by code_simp
  have c1: "is_correct ''mitochondria'' ''mitochondria''" by (simp add: is_correct_def)
  have c2: "\<not> is_correct ''london'' ''paris''" by code_simp
  have idx: "[0..<2] = [0, Suc 0]" by (simp add: upt_rec)
  have example: "check_answers [''mitochondria!!'', ''London''] [''Mitochondria'', ''Paris'']
       = Inr (1, [''Correct!'', ''Not quite. Expected: Paris''])"
    by (simp add: check_answers_def py_getitem_def idx n1 n2 n3 n4 c1 c2)
  from general example show ?thesis by blast
qed

theorem check_answers_feedback_witness:
  "(1::nat) < min (length [''mitochondria!!'', ''London'']) (length [''Mitochondria'', ''Paris''])
   \<and> (\<exists>score feedback.
        check_answers [''mitochondria!!'', ''London''] [''Mitochondria'', ''Paris'']
          = Inr (score, feedback)
      \<and> feedback ! 1 = ''Not quite. Expected: Paris'')"
proof -
  have h: "(1::nat) < min (length [''mitochondria!!'', ''London''])
                          (length [''Mitochondria'', ''Paris''])" by simp
  have n3: "normalize_text ''London'' = ''london''" by code_simp
  have n4: "normalize_text ''Paris'' = ''paris''" by code_simp
  have c2: "\<not> is_correct ''london'' ''paris''" by code_simp
  from check_answers_feedback [of 1 "[''mitochondria!!'', ''London'']" "[''Mitochondria'', ''Paris'']"]
  show ?thesis using h n3 n4 c2 by simp
qed

text \<open>
  C10: the score lies between 0 and \<open>min (length user_answers) (length correct_answers)\<close>
  and is the number of feedback entries that are the text \<open>Correct!\<close>.
\<close>

theorem check_answers_score_bounds:
  "\<exists>score feedback.
      check_answers user_answers correct_answers = Inr (score, feedback)
    \<and> 0 \<le> score
    \<and> score \<le> int (min (length user_answers) (length correct_answers))
    \<and> score = int (length (filter (\<lambda>entry. entry = ''Correct!'') feedback))"
proof -
  let ?n = "min (length user_answers) (length correct_answers)"
  let ?ok = "\<lambda>i. is_correct (normalize_text (user_answers ! i)) (normalize_text (correct_answers ! i))"
  let ?fb = "\<lambda>i. if ?ok i then ''Correct!'' else ''Not quite. Expected: '' @ correct_answers ! i"
  have "length (filter ?ok [0..<?n]) \<le> length [0..<?n]"
    by (rule length_filter_le)
  then have bound: "length (filter ?ok [0..<?n]) \<le> ?n" by simp
  have "(\<lambda>entry. entry = ''Correct!'') \<circ> ?fb = ?ok"
    by (rule ext) simp
  then have "filter (\<lambda>entry. entry = ''Correct!'') (map ?fb [0..<?n]) = map ?fb (filter ?ok [0..<?n])"
    by (simp add: filter_map)
  then have count: "length (filter (\<lambda>entry. entry = ''Correct!'') (map ?fb [0..<?n]))
      = length (filter ?ok [0..<?n])"
    by simp
  show ?thesis
    unfolding check_answers_eq [of user_answers correct_answers]
    using bound count by simp
qed

section \<open>Properties of parsing and generation\<close>

text \<open>
  C7: when the text cannot be decoded as JSON (the decoder raises), \<open>_parse_quiz_json\<close>
  returns the empty list: the exception is caught, none leaves the function.
\<close>

theorem parse_quiz_json_decode_failure:
  "loads text = Inl e \<Longrightarrow> parse_quiz_json loads repr text = []"
  by (simp add: parse_quiz_json_def parse_quiz_body_def)

theorem parse_quiz_json_decode_failure_witness:
  "loads_examples ''not json'' = Inl JSONDecodeError
   \<and> parse_quiz_json loads_examples (\<lambda>v. ''None'') ''not json'' = []"
proof -
  have h: "loads_examples ''not json'' = Inl JSONDecodeError"
    by (simp add: loads_examples_def)
  from parse_quiz_json_decode_failure
         [of loads_examples "''not json''" JSONDecodeError "\<lambda>v. ''None''"] h
  show ?thesis by simp
qed

text \<open>
  C8: on a decoded value, \<open>_parse_quiz_json\<close> takes the list under the key \<open>questions\<close>
  of an object, or the value itself when it is a list, and nothing otherwise; it keeps, in
  the order of the source, the records whose \<open>question\<close> and \<open>answer\<close>, coerced to text and
  trimmed, are both not empty. The example text with the two records \<open>Q1\<close>/\<open>A1\<close> and
  empty/\<open>A2\<close> gives the one item \<open>Q1\<close>/\<open>A1\<close>.
\<close>

theorem parse_quiz_json_items:
  \<open>parse_quiz_json loads repr text = parse_quiz_spec loads repr text
   \<and> (loads ''{"questions": [{"question":"Q1","answer":"A1"},{"question":"","answer":"A2"}]}''
        = Inr (JDict [(''questions'',
                 JList [JDict [(''question'', JStr ''Q1''), (''answer'', JStr ''A1'')],
                        JDict [(''question'', JStr []), (''answer'', JStr ''A2'')]])])
      \<longrightarrow> parse_quiz_json loads repr
            ''{"questions": [{"question":"Q1","answer":"A1"},{"question":"","answer":"A2"}]}''
          = [\<lparr>question = ''Q1'', answer = ''A1''\<rparr>])\<close>
proof -
  have general: "parse_quiz_json loads repr t = parse_quiz_spec loads repr t" for t
    by (simp add: parse_quiz_json_def parse_quiz_body_eq parse_quiz_spec_def parse_items_eq
             split: sum.splits)
  have q1: "strip ''Q1'' = ''Q1''" by code_simp
  have a1: "strip ''A1'' = ''A1''" by code_simp
  have a2: "strip ''A2'' = ''A2''" by code_simp
  have e: "strip [] = []" by (simp add: strip_def)
  show ?thesis
    unfolding general
    by (simp add: parse_quiz_spec_def item_source_def item_field_def is_record_def
          dict_get_def py_str_def q1 a1 a2 e)
qed

theorem parse_quiz_json_items_witness:
  \<open>loads_examples ''{"questions": [{"question":"Q1","answer":"A1"},{"question":"","answer":"A2"}]}''
     = Inr (JDict [(''questions'',
              JList [JDict [(''question'', JStr ''Q1''), (''answer'', JStr ''A1'')],
                     JDict [(''question'', JStr []), (''answer'', JStr ''A2'')]])])
   \<and> parse_quiz_json loads_examples (\<lambda>v. ''None'')
        ''{"questions": [{"question":"Q1","answer":"A1"},{"question":"","answer":"A2"}]}''
      = [\<lparr>question = ''Q1'', answer = ''A1''\<rparr>]\<close>
proof -
  have h: \<open>loads_examples
        ''{"questions": [{"question":"Q1","answer":"A1"},{"question":"","answer":"A2"}]}''
     = Inr (JDict [(''questions'',
              JList [JDict [(''question'', JStr ''Q1''), (''answer'', JStr ''A1'')],
                     JDict [(''question'', JStr []), (''answer'', JStr ''A2'')]])])\<close>
    by (simp add: loads_examples_def)
  from parse_quiz_json_items [of loads_examples "\<lambda>v. ''None''" "[]"] h show ?thesis
    by blast
qed

text \<open>
  C9: the number of questions written into the quiz prompt is the requested count clamped
  into the range from 3 to 5: the user message sent to the completion call reads
  \<open>Number of questions: 3\<close> for a count of at most 3, \<open>4\<close> for 4 and \<open>5\<close> for a count of at
  least 5; without a count the call is the one for the count 4.
\<close>

theorem quiz_count_clamped:
  "quiz_count (Some count) = (if count < 3 then 3 else if 5 < count then 5 else count)
   \<and> 3 \<le> quiz_count (Some count) \<and> quiz_count (Some count) \<le> 5
   \<and> quiz_count None = 4
   \<and> generate_quiz chat loads repr topic (Some count) =
       (case chat
          [\<lparr>role = ''system'',
            content =
              ''You are a helpful quiz generator. Create concise questions testing core understanding.''\<rparr>,
           \<lparr>role = ''user'',
            content =
              ''Create a short quiz about the topic. Return JSON with keys: questions -> list of ''
              @ ''objects each with 'question' and 'answer'. Keep questions short and clear.''
              @ ''\<newline>\<newline>Topic: '' @ strip topic @ ''\<newline>Number of questions: ''
              @ (if count \<le> 3 then ''3'' else if count = 4 then ''4'' else ''5'')
              @ ''\<newline>\<newline>JSON only:''\<rparr>]
        of
          Inl e \<Rightarrow> Inl e
        | Inr raw \<Rightarrow> Inr (parse_quiz_json loads repr raw))
   \<and> generate_quiz chat loads repr topic None = generate_quiz chat loads repr topic (Some 4)"
proof -
  have s3: "str_int 3 = ''3''" by code_simp
  have s4: "str_int 4 = ''4''" by code_simp
  have s5: "str_int 5 = ''5''" by code_simp
  have digits: "str_int (quiz_count (Some count)) =
      (if count \<le> 3 then ''3'' else if count = 4 then ''4'' else ''5'')"
  proof -
    consider "count \<le> 3" | "count = 4" | "5 \<le> count" by linarith
    then show ?thesis
    proof cases
      case 1
      then have "quiz_count (Some count) = 3" by (simp add: quiz_count_def)
      with 1 s3 show ?thesis by simp
    next
      case 2
      then have "quiz_count (Some count) = 4" by (simp add: quiz_count_def)
      with 2 s4 show ?thesis by simp
    next
      case 3
      then have "quiz_count (Some count) = 5" by (simp add: quiz_count_def)
      with 3 s5 show ?thesis by simp
    qed
  qed
  have clamp: "quiz_count (Some count) = (if count < 3 then 3 else if 5 < count then 5 else count)
      \<and> 3 \<le> quiz_count (Some count) \<and> quiz_count (Some count) \<le> 5
      \<and> quiz_count None = 4"
    by (simp add: quiz_count_def)
  have call: "generate_quiz chat loads repr topic (Some count) =
       (case chat
          [\<lparr>role = ''system'',
            content =
              ''You are a helpful quiz generator. Create concise questions testing core understanding.''\<rparr>,
           \<lparr>role = ''user'',
            content =
              ''Create a short quiz about the topic. Return JSON with keys: questions -> list of ''
              @ ''objects each with 'question' and 'answer'. Keep questions short and clear.''
              @ ''\<newline>\<newline>Topic: '' @ strip topic @ ''\<newline>Number of questions: ''
              @ (if count \<le> 3 then ''3'' else if count = 4 then ''4'' else ''5'')
              @ ''\<newline>\<newline>JSON only:''\<rparr>]
        of
          Inl e \<Rightarrow> Inl e
        | Inr raw \<Rightarrow> Inr (parse_quiz_json loads repr raw))"
    unfolding generate_quiz_def quiz_messages_def Let_def digits by simp
  have dflt: "generate_quiz chat loads repr topic None = generate_quiz chat loads repr topic (Some 4)"
    by (simp add: generate_quiz_def quiz_count_def)
  from clamp call dflt show ?thesis by (intro conjI) simp_all
qed

end
